theory Spec2Isabelle
  imports Main "HOL-Library.Word"
begin

unbundle bit_operations_syntax

section \<open>Data model of package uuid\<close>

type_synonym byte = "8 word"

text \<open>
  \<^verbatim>\<open>type UUID struct { scope string; hex string; bin [16]byte }\<close>.
  The array \<open>bin\<close> is a list that always holds 16 bytes.  A \<^verbatim>\<open>*UUID\<close> is a
  \<open>UUID option\<close>, the nil pointer being \<open>None\<close>.
\<close>

record UUID =
  scope :: string
  hex :: string
  bin :: "byte list"

text \<open>The zero value of the struct, as \<^verbatim>\<open>var uuid UUID\<close> declares it.\<close>

definition zero_UUID :: UUID where
  "zero_UUID = \<lparr>scope = '''', hex = '''', bin = replicate 16 0\<rparr>"

text \<open>An \<^verbatim>\<open>error\<close> is modelled by its message; the package builds all of them with
  \<^verbatim>\<open>errors.New\<close> from the string constants below.\<close>

type_synonym error = string

definition ErrorMissingScope :: error where
  "ErrorMissingScope = ''The provided scope is not known.''"

definition ErrorBadScope :: error where
  "ErrorBadScope = ''The provided scope is not supported.''"

definition ErrorBadString :: error where
  "ErrorBadString = ''The provided string is not a UUID.''"

definition ErrorScopesAlreadySet :: error where
  "ErrorScopesAlreadySet = ''Scopes can only be set once.''"

text \<open>Run-time panics of the Go runtime that the package can reach.\<close>

datatype panic = NilDereference | SliceBoundsOutOfRange

text \<open>
  \<^verbatim>\<open>var setScopes map[string]*byte\<close>: every pointer stored in the map is
  \<^verbatim>\<open>&scopes[index]\<close>, so a pointer is modelled by the index it points at and
  dereferencing it reads the table \<open>scopes\<close>.  The global is \<open>None\<close> while the map is
  nil.
\<close>

type_synonym scope_map = "string \<rightharpoonup> nat"

definition scopes :: "byte list" where
  "scopes =
    [0x00, 0x04, 0x08, 0x0c,
     0x10, 0x14, 0x18, 0x1c,
     0x20, 0x24, 0x28, 0x2c,
     0x30, 0x34, 0x38, 0x3c,
     0x40, 0x44, 0x48, 0x4c,
     0x50, 0x54, 0x58, 0x5c,
     0x60, 0x64, 0x68, 0x6c,
     0x70, 0x74, 0x78, 0x7c,
     0x80, 0x84, 0x88, 0x8c,
     0x90, 0x94, 0x98, 0x9c,
     0xa0, 0xa4, 0xa8, 0xac,
     0xb0, 0xb4, 0xb8, 0xbc,
     0xc0, 0xc4, 0xc8, 0xcc,
     0xd0, 0xd4, 0xd8, 0xdc,
     0xe0, 0xe4, 0xe8, 0xec,
     0xf0, 0xf4, 0xf8, 0xfc]"

text \<open>Indexing the map: a nil map and a missing key both give the nil pointer.\<close>

definition map_index :: "scope_map option \<Rightarrow> string \<Rightarrow> nat option" where
  "map_index setScopes k = (case setScopes of None \<Rightarrow> None | Some m \<Rightarrow> m k)"

section \<open>Accessors\<close>

definition Scope :: "UUID option \<Rightarrow> string" where
  "Scope uuid = (case uuid of None \<Rightarrow> '''' | Some u \<Rightarrow> scope u)"

definition Bin :: "UUID option \<Rightarrow> byte list" where
  "Bin uuid =
     (let panicHealer = replicate 16 0
      in case uuid of None \<Rightarrow> panicHealer | Some u \<Rightarrow> bin u)"

definition Hex :: "UUID option \<Rightarrow> string" where
  "Hex uuid = (case uuid of None \<Rightarrow> '''' | Some u \<Rightarrow> hex u)"

text \<open>
  \<^verbatim>\<open>ScopeMatches\<close> ranges over the candidates and reads \<^verbatim>\<open>uuid.scope\<close> in the loop
  body without a nil check: the read faults on a nil receiver.
\<close>

fun ScopeMatches :: "UUID option \<Rightarrow> string list \<Rightarrow> panic + bool" where
  "ScopeMatches uuid [] = Inr False"
| "ScopeMatches uuid (c # cs) =
     (case uuid of
        None \<Rightarrow> Inl NilDereference
      | Some u \<Rightarrow> if scope u = c then Inr True else ScopeMatches uuid cs)"

section \<open>Formatting and decoding\<close>

text \<open>
  The verb \<^verbatim>\<open>%x\<close> of package fmt on a byte slice: two digits of
  \<^verbatim>\<open>"0123456789abcdef"\<close> for every byte, high nibble first.
\<close>

definition ldigits :: string where
  "ldigits = ''0123456789abcdef''"

definition fmt_x_byte :: "byte \<Rightarrow> string" where
  "fmt_x_byte c = [ldigits ! unat (drop_bit 4 c), ldigits ! unat (c AND 0x0F)]"

definition fmt_x :: "byte list \<Rightarrow> string" where
  "fmt_x bs = concat (map fmt_x_byte bs)"

text \<open>\<^verbatim>\<open>fmt.Sprintf("%x-%x-%x-%x-%x", a, b, c, d, e)\<close>.\<close>

definition Sprintf_x5 ::
  "byte list \<Rightarrow> byte list \<Rightarrow> byte list \<Rightarrow> byte list \<Rightarrow> byte list \<Rightarrow> string" where
  "Sprintf_x5 a b c d e =
     fmt_x a @ ''-'' @ fmt_x b @ ''-'' @ fmt_x c @ ''-'' @ fmt_x d @ ''-'' @ fmt_x e"

text \<open>A slice expression \<^verbatim>\<open>a[lo:hi]\<close> on an array of which both bounds are constants
  within the array.\<close>

definition array_slice :: "byte list \<Rightarrow> nat \<Rightarrow> nat \<Rightarrow> byte list" where
  "array_slice a lo hi = take (hi - lo) (drop lo a)"

text \<open>
  The call of \<^verbatim>\<open>New\<close> on the array \<open>bin\<close>:
  \<^verbatim>\<open>fmt.Sprintf("%x-%x-%x-%x-%x", bin[0:4], bin[4:6], bin[6:8], bin[8:10], bin[10:16])\<close>.
\<close>

definition Sprintf_bin :: "byte list \<Rightarrow> string" where
  "Sprintf_bin b =
     Sprintf_x5 (array_slice b 0 4) (array_slice b 4 6) (array_slice b 6 8)
       (array_slice b 8 10) (array_slice b 10 16)"

text \<open>
  \<^verbatim>\<open>hex.DecodeString\<close> of the standard library: pairs of hexadecimal digits of either
  case; an invalid digit or an odd length is an error.  The character codes 48 to 57
  are the digits \<^verbatim>\<open>0\<close> to \<^verbatim>\<open>9\<close>, 97 to 102 the letters \<^verbatim>\<open>a\<close> to \<^verbatim>\<open>f\<close> and 65 to 70 the
  letters \<^verbatim>\<open>A\<close> to \<^verbatim>\<open>F\<close>.
\<close>

definition fromHexChar :: "char \<Rightarrow> byte option" where
  "fromHexChar c =
     (let n = (of_char c :: nat)
      in if 48 \<le> n \<and> n \<le> 57 then Some (of_nat (n - 48))
         else if 97 \<le> n \<and> n \<le> 102 then Some (of_nat (n - 97 + 10))
         else if 65 \<le> n \<and> n \<le> 70 then Some (of_nat (n - 65 + 10))
         else None)"

datatype hex_error = InvalidByteError char | ErrLength

fun DecodeString :: "string \<Rightarrow> hex_error + byte list" where
  "DecodeString [] = Inr []"
| "DecodeString [p] =
     (case fromHexChar p of None \<Rightarrow> Inl (InvalidByteError p) | Some a \<Rightarrow> Inl ErrLength)"
| "DecodeString (p # q # rest) =
     (case fromHexChar p of
        None \<Rightarrow> Inl (InvalidByteError p)
      | Some a \<Rightarrow>
          (case fromHexChar q of
             None \<Rightarrow> Inl (InvalidByteError q)
           | Some b \<Rightarrow>
               (case DecodeString rest of
                  Inl e \<Rightarrow> Inl e
                | Inr bs \<Rightarrow> Inr ((push_bit 4 a OR b) # bs))))"

text \<open>\<^verbatim>\<open>strings.Replace(s, "-", "", -1)\<close>: every hyphen is removed.\<close>

definition Replace_hyphens :: "string \<Rightarrow> string" where
  "Replace_hyphens s = filter (\<lambda>c. c \<noteq> CHR ''-'') s"

text \<open>\<^verbatim>\<open>copy(dst, src)\<close> copies \<open>min (len dst) (len src)\<close> elements.\<close>

definition copy_bytes :: "byte list \<Rightarrow> byte list \<Rightarrow> byte list" where
  "copy_bytes dst src = take (length dst) src @ drop (length src) dst"

section \<open>The canonical grammar\<close>

text \<open>
  The regular expression of \<^verbatim>\<open>Read\<close>,
  \<^verbatim>\<open>^[0-9a-f]{8}-[0-9a-f]{4}-[0-9a-f]{4}-[0-9a-f]{4}-[0-9a-f]{12}$\<close>,
  is a sequence of counted runs of the class \<^verbatim>\<open>[0-9a-f]\<close> and literal hyphens between
  the two anchors.  Without the flag \<^verbatim>\<open>m\<close>, Go's \<^verbatim>\<open>$\<close> matches at the end of the
  text only.
\<close>

datatype atom = HexRun nat | Lit char

definition is_lhex :: "char \<Rightarrow> bool" where
  "is_lhex c =
     (let n = (of_char c :: nat) in (48 \<le> n \<and> n \<le> 57) \<or> (97 \<le> n \<and> n \<le> 102))"

fun MatchString :: "atom list \<Rightarrow> string \<Rightarrow> bool" where
  "MatchString [] s = (s = [])"
| "MatchString (HexRun n # as) s =
     (n \<le> length s \<and> list_all is_lhex (take n s) \<and> MatchString as (drop n s))"
| "MatchString (Lit c # as) s =
     (case s of [] \<Rightarrow> False | x # xs \<Rightarrow> x = c \<and> MatchString as xs)"

definition uuid_regexp :: "atom list" where
  "uuid_regexp =
     [HexRun 8, Lit CHR ''-'', HexRun 4, Lit CHR ''-'', HexRun 4, Lit CHR ''-'',
      HexRun 4, Lit CHR ''-'', HexRun 12]"

section \<open>Scope resolution, New, Read\<close>

text \<open>
  \<^verbatim>\<open>for scope = range setScopes\<close>: the runtime yields the keys of the map in an order of
  its own choosing; \<open>ks\<close> is that order, a list of the keys of the map.  The body
  looks the key up again, \<^verbatim>\<open>*setScopes[scope]\<close>.  The statement yields keys of the map
  only, so the lookup finds a pointer for each of them; the branch \<open>None\<close> below is
  not reached when \<open>ks\<close> lists keys of \<open>m\<close>.  The first key whose tag equals
  \<open>tmpByte\<close> is stored in \<^verbatim>\<open>uuid.scope\<close> and ends the loop.
\<close>

fun range_setScopes :: "scope_map \<Rightarrow> byte \<Rightarrow> string list \<Rightarrow> UUID \<Rightarrow> UUID" where
  "range_setScopes m tmpByte [] uuid = uuid"
| "range_setScopes m tmpByte (k # ks) uuid =
     (case m k of
        None \<Rightarrow> range_setScopes m tmpByte ks uuid
      | Some p \<Rightarrow>
          if tmpByte = scopes ! p then uuid\<lparr>scope := k\<rparr>
          else range_setScopes m tmpByte ks uuid)"

text \<open>\<^verbatim>\<open>readScope\<close> returns its error and the struct as it left it.\<close>

definition readScope ::
  "scope_map option \<Rightarrow> string list \<Rightarrow> UUID \<Rightarrow> error option \<times> UUID" where
  "readScope setScopes ks uuid =
     (case DecodeString (Replace_hyphens (hex uuid)) of
        Inl err \<Rightarrow> (Some ErrorBadString, uuid)
      | Inr tmpBytes \<Rightarrow>
          (let uuid1 = uuid\<lparr>bin := copy_bytes (bin uuid) tmpBytes\<rparr>;
               tmpByte = (bin uuid1 ! 0) AND NOT 0x03
           in case setScopes of
                None \<Rightarrow> (Some ErrorMissingScope, uuid1)
              | Some m \<Rightarrow>
                  (let uuid2 = range_setScopes m tmpByte ks uuid1
                   in if scope uuid2 = '''' then (Some ErrorBadScope, uuid2)
                      else (None, uuid2))))"

text \<open>
  \<^verbatim>\<open>New\<close>.  \<open>crand\<close> is what \<^verbatim>\<open>crand.Read(uuid.bin[:])\<close> did: an error message, or
  the 16 bytes it wrote; \<open>mrand\<close> is the value of \<^verbatim>\<open>mrand.Intn(4)\<close>.
\<close>

definition New ::
  "scope_map option \<Rightarrow> string \<Rightarrow> string + byte list \<Rightarrow> nat \<Rightarrow> error + UUID" where
  "New setScopes scope_arg crand mrand =
     (case map_index setScopes scope_arg of
        None \<Rightarrow> Inl ErrorMissingScope
      | Some p \<Rightarrow>
          (case crand of
             Inl msg \<Rightarrow> Inl (''Error generating new UUID: '' @ msg)
           | Inr rnd \<Rightarrow>
               (let b = rnd[0 := (scopes ! p) OR of_nat mrand]
                in Inr \<lparr>scope = scope_arg, hex = Sprintf_bin b, bin = b\<rparr>)))"

definition Read :: "scope_map option \<Rightarrow> string list \<Rightarrow> string \<Rightarrow> error + UUID" where
  "Read setScopes ks input =
     (if \<not> MatchString uuid_regexp input then Inl ErrorBadString
      else case readScope setScopes ks (zero_UUID\<lparr>hex := input\<rparr>) of
             (Some err, uuid) \<Rightarrow> Inl ErrorBadScope
           | (None, uuid) \<Rightarrow> Inr uuid)"

section \<open>Scan\<close>

text \<open>
  A byte slice has a length and a capacity: \<open>backing\<close> holds the elements of the
  underlying array from the slice's first element on, \<open>len\<close> of them are the slice's
  own.  A slice expression on a slice may reach up to the capacity.
\<close>

record byteslice =
  backing :: "byte list"
  len :: nat

definition cap :: "byteslice \<Rightarrow> nat" where
  "cap s = length (backing s)"

definition slice_expr :: "byteslice \<Rightarrow> nat \<Rightarrow> nat \<Rightarrow> panic + byte list" where
  "slice_expr s lo hi =
     (if lo \<le> hi \<and> hi \<le> cap s then Inr (take (hi - lo) (drop lo (backing s)))
      else Inl SliceBoundsOutOfRange)"

text \<open>The dynamic type of \<^verbatim>\<open>src interface{}\<close>: a byte slice or anything else.\<close>

datatype src_value = ByteSlice byteslice | OtherValue

definition and_then :: "panic + 'a \<Rightarrow> ('a \<Rightarrow> panic + 'b) \<Rightarrow> panic + 'b" where
  "and_then r f = (case r of Inl p \<Rightarrow> Inl p | Inr x \<Rightarrow> f x)"

definition Scan ::
  "scope_map option \<Rightarrow> string list \<Rightarrow> UUID option \<Rightarrow> src_value
     \<Rightarrow> panic + (error option \<times> UUID option)" where
  "Scan setScopes ks uuid src =
     (case src of
        OtherValue \<Rightarrow> Inr (Some ''Type assertion .([]byte) failed.'', uuid)
      | ByteSlice tmpByte \<Rightarrow>
          and_then (slice_expr tmpByte 0 4) (\<lambda>a.
          and_then (slice_expr tmpByte 4 6) (\<lambda>b.
          and_then (slice_expr tmpByte 6 8) (\<lambda>c.
          and_then (slice_expr tmpByte 8 10) (\<lambda>d.
          and_then (slice_expr tmpByte 10 16) (\<lambda>e.
            (case uuid of
               None \<Rightarrow> Inl NilDereference
             | Some u \<Rightarrow>
                 (case readScope setScopes ks (u\<lparr>hex := Sprintf_x5 a b c d e\<rparr>) of
                    (err, u') \<Rightarrow> Inr (err, Some u')))))))))"

section \<open>SetScopes\<close>

text \<open>
  The loop \<^verbatim>\<open>for index = 0; index < 64; index++\<close> stores \<^verbatim>\<open>&scopes[index]\<close> under
  \<^verbatim>\<open>newScopes[index]\<close>.  The function returns its error and the new value of the
  global.
\<close>

definition SetScopes ::
  "scope_map option \<Rightarrow> string list \<Rightarrow> error option \<times> scope_map option" where
  "SetScopes setScopes newScopes =
     (case setScopes of
        Some m \<Rightarrow> (Some ErrorScopesAlreadySet, setScopes)
      | None \<Rightarrow>
          (let tmpMap = fold (\<lambda>index tmpMap. tmpMap(newScopes ! index \<mapsto> index))
                          [0..<64] Map.empty
           in (None, Some tmpMap)))"

section \<open>Two goroutines in SetScopes\<close>

text \<open>
  \<^verbatim>\<open>SetScopes\<close> touches the global twice: it reads it in \<^verbatim>\<open>if setScopes != nil\<close> and it
  writes it in \<^verbatim>\<open>setScopes = tmpMap\<close>; the loop between the two works on the local
  \<^verbatim>\<open>tmpMap\<close> only.  The source takes no lock around them, so another goroutine may run
  between the read and the write.  A call is at its read, at its write, or has
  returned its error.
\<close>

datatype call = AtCheck "string list" | AtPublish "string list" | Returned "error option"

definition SetScopes_step :: "scope_map option \<Rightarrow> call \<Rightarrow> scope_map option \<times> call" where
  "SetScopes_step setScopes c =
     (case c of
        AtCheck newScopes \<Rightarrow>
          (case setScopes of
             Some m \<Rightarrow> (setScopes, Returned (Some ErrorScopesAlreadySet))
           | None \<Rightarrow> (setScopes, AtPublish newScopes))
      | AtPublish newScopes \<Rightarrow>
          (let tmpMap = fold (\<lambda>index tmpMap. tmpMap(newScopes ! index \<mapsto> index))
                          [0..<64] Map.empty
           in (Some tmpMap, Returned None))
      | Returned r \<Rightarrow> (setScopes, Returned r))"

text \<open>
  Two goroutines, each in one call of \<^verbatim>\<open>SetScopes\<close>, share the global.  A schedule
  names the goroutine that takes the next step.
\<close>

datatype goroutine = GoA | GoB

fun run_schedule ::
  "goroutine list \<Rightarrow> scope_map option \<times> call \<times> call \<Rightarrow> scope_map option \<times> call \<times> call" where
  "run_schedule [] st = st"
| "run_schedule (GoA # sched) (setScopes, a, b) =
     (case SetScopes_step setScopes a of
        (setScopes', a') \<Rightarrow> run_schedule sched (setScopes', a', b))"
| "run_schedule (GoB # sched) (setScopes, a, b) =
     (case SetScopes_step setScopes b of
        (setScopes', b') \<Rightarrow> run_schedule sched (setScopes', a, b'))"

section \<open>The grammar in the specification's words\<close>

text \<open>
  The specification describes the canonical text by positions: exactly 36 characters,
  hyphens at the positions 8, 13, 18 and 23 (counted from 0) and a lowercase
  hexadecimal digit at every other position.  This predicate follows those words; it
  is compared with the regular expression of the source below.
\<close>

definition lowercase_hex_digit :: "char \<Rightarrow> bool" where
  "lowercase_hex_digit c = (c \<in> set ''0123456789abcdef'')"

definition hyphen_positions :: "nat list" where
  "hyphen_positions = [8, 13, 18, 23]"

definition canonical_text :: "string \<Rightarrow> bool" where
  "canonical_text s =
     (length s = 36 \<and>
      list_all (\<lambda>i. if i \<in> set hyphen_positions then s ! i = CHR ''-''
                     else lowercase_hex_digit (s ! i)) [0..<36])"

section \<open>Data of the package's test\<close>

text \<open>
  The test configures the package with
  \<^verbatim>\<open>[64]string{"one", "two", "three", "four", "five", "six", "seven", "eight"}\<close>:
  the other 56 elements of the array are the empty string.
\<close>

definition myScopes :: "string list" where
  "myScopes =
     [''one'', ''two'', ''three'', ''four'', ''five'', ''six'', ''seven'', ''eight'']
       @ replicate 56 ''''"

text \<open>An array of 64 distinct names, the first eight as in the test.\<close>

definition distinctScopes :: "string list" where
  "distinctScopes =
     [''one'', ''two'', ''three'', ''four'', ''five'', ''six'', ''seven'', ''eight'',
      ''n09'', ''n10'', ''n11'', ''n12'', ''n13'', ''n14'', ''n15'', ''n16'',
      ''n17'', ''n18'', ''n19'', ''n20'', ''n21'', ''n22'', ''n23'', ''n24'',
      ''n25'', ''n26'', ''n27'', ''n28'', ''n29'', ''n30'', ''n31'', ''n32'',
      ''n33'', ''n34'', ''n35'', ''n36'', ''n37'', ''n38'', ''n39'', ''n40'',
      ''n41'', ''n42'', ''n43'', ''n44'', ''n45'', ''n46'', ''n47'', ''n48'',
      ''n49'', ''n50'', ''n51'', ''n52'', ''n53'', ''n54'', ''n55'', ''n56'',
      ''n57'', ''n58'', ''n59'', ''n60'', ''n61'', ''n62'', ''n63'', ''n64'']"

text \<open>The map that \<^verbatim>\<open>SetScopes(myScopes)\<close> leaves in the global.\<close>

definition mySetScopes :: "scope_map option" where
  "mySetScopes = snd (SetScopes None myScopes)"

text \<open>An order in which the runtime may yield the nine keys of that map.\<close>

definition myKeys :: "string list" where
  "myKeys =
     [''seven'', ''one'', '''', ''five'', ''two'', ''eight'', ''three'', ''six'', ''four'']"

text \<open>Sixteen bytes as \<^verbatim>\<open>crand.Read\<close> may deliver them.\<close>

definition myRandom :: "byte list" where
  "myRandom =
     [0xff, 0x8c, 0xb1, 0xd0, 0x84, 0xf3, 0x9d, 0x8d,
      0x76, 0xcc, 0x68, 0x2d, 0x1c, 0xa3, 0x4d, 0xae]"

section \<open>Bytes and hexadecimal digits\<close>

lemma length_scopes: "length scopes = 64"
  by (simp add: scopes_def)

lemma distinct_scopes: "distinct scopes"
  by (simp add: scopes_def)

lemma scopes_low_bits: "t \<in> set scopes \<Longrightarrow> t AND 0x03 = 0"
  by (auto simp add: scopes_def)

lemma mask_numerals: "(3::byte) = mask 2" "(15::byte) = mask 4"
  by (simp_all add: mask_eq_exp_minus_1)

lemma nibbles: "push_bit 4 (drop_bit 4 c) OR (c AND 0x0F) = (c::byte)"
  unfolding mask_numerals
  by (rule bit_eqI) (auto simp add: bit_simps)

lemma lt4_cases: "r < (4::nat) \<Longrightarrow> r = 0 \<or> r = 1 \<or> r = 2 \<or> r = 3"
  by arith

lemma tag_or_and:
  assumes "t AND 0x03 = 0" and "r < 4"
  shows "((t::byte) OR of_nat r) AND NOT 0x03 = t"
proof -
  have a: "(of_nat r :: byte) AND NOT 0x03 = 0"
    using lt4_cases[OF assms(2)] by auto
  have b: "t AND NOT 0x03 = t"
    using assms(1) unfolding mask_numerals
    by (metis (no_types) and.right_neutral bit.conj_disj_distrib bit.disj_cancel_right
        or.left_neutral)
  show ?thesis
    by (simp only: bit.conj_disj_distrib2 a b or.right_neutral)
qed

lemma not3: "NOT (0x03::byte) = 0xFC"
  by code_simp

lemma lt16_cases: "n < (16::nat) \<Longrightarrow> n \<in> {0,1,2,3,4,5,6,7,8,9,10,11,12,13,14,15}"
  by (simp, arith)

lemma fromHexChar_ldigits: "n < 16 \<Longrightarrow> fromHexChar (ldigits ! n) = Some (of_nat n)"
  by (drule lt16_cases) (auto simp add: fromHexChar_def ldigits_def)

lemma is_lhex_ldigits: "n < 16 \<Longrightarrow> is_lhex (ldigits ! n)"
  by (drule lt16_cases) (auto simp add: is_lhex_def ldigits_def)

lemma ldigits_not_hyphen: "n < 16 \<Longrightarrow> ldigits ! n \<noteq> CHR ''-''"
  by (drule lt16_cases) (auto simp add: ldigits_def)

lemma hi_nibble_lt: "unat (drop_bit 4 (c::byte)) < 16"
proof -
  have "unat c < 256" using unsigned_less[of c, where 'a=nat] by simp
  then show ?thesis by (simp add: drop_bit_eq_div unat_div_distrib)
qed

lemma lo_nibble_lt: "unat ((c::byte) AND 0x0F) < 16"
proof -
  have "unat (c AND 0x0F) \<le> unat (0x0F :: byte)"
    by (rule word_and_le1 [THEN word_le_nat_alt [THEN iffD1]])
  then show ?thesis by simp
qed

lemma DecodeString_fmt_x_byte:
  "DecodeString (fmt_x_byte c @ s) =
     (case DecodeString s of Inl e \<Rightarrow> Inl e | Inr bs \<Rightarrow> Inr (c # bs))"
  by (simp add: fmt_x_byte_def fromHexChar_ldigits hi_nibble_lt lo_nibble_lt nibbles
      split: sum.splits)

lemma DecodeString_fmt_x: "DecodeString (fmt_x bs) = Inr bs"
  by (induction bs) (simp_all add: fmt_x_def DecodeString_fmt_x_byte)

lemma length_fmt_x: "length (fmt_x bs) = 2 * length bs"
  by (induction bs) (simp_all add: fmt_x_def fmt_x_byte_def)

lemma lhex_fmt_x: "list_all is_lhex (fmt_x bs)"
  by (induction bs)
    (simp_all add: fmt_x_def fmt_x_byte_def is_lhex_ldigits hi_nibble_lt lo_nibble_lt)

lemma Replace_hyphens_fmt_x: "Replace_hyphens (fmt_x bs) = fmt_x bs"
  by (induction bs)
    (simp_all add: Replace_hyphens_def fmt_x_def fmt_x_byte_def ldigits_not_hyphen
      hi_nibble_lt lo_nibble_lt)

lemma fmt_x_append: "fmt_x (a @ b) = fmt_x a @ fmt_x b"
  by (simp add: fmt_x_def)

lemma Replace_hyphens_append:
  "Replace_hyphens (x @ y) = Replace_hyphens x @ Replace_hyphens y"
  by (simp add: Replace_hyphens_def)

lemma Replace_hyphens_hyphen: "Replace_hyphens (CHR ''-'' # s) = Replace_hyphens s"
  by (simp add: Replace_hyphens_def)

lemma Replace_hyphens_Sprintf:
  "Replace_hyphens (Sprintf_x5 a b c d e) = fmt_x (a @ b @ c @ d @ e)"
  by (simp add: Sprintf_x5_def Replace_hyphens_append Replace_hyphens_hyphen
      Replace_hyphens_fmt_x fmt_x_append)

lemma MatchString_Sprintf:
  assumes "length a = 4" "length b = 2" "length c = 2" "length d = 2" "length e = 6"
  shows "MatchString uuid_regexp (Sprintf_x5 a b c d e)"
  using assms
  by (simp add: uuid_regexp_def Sprintf_x5_def length_fmt_x lhex_fmt_x)

lemma take_drop_join:
  "take n (drop k b) @ take m (drop (k + n) b) = take (n + m) (drop k b)"
proof -
  have "drop (k + n) b = drop n (drop k b)"
    by (simp add: add.commute)
  then show ?thesis
    by (simp only: take_add)
qed

lemma take_drop_16:
  "take 4 b @ take 2 (drop 4 b) @ take 2 (drop 6 b) @ take 2 (drop 8 b)
     @ take 6 (drop 10 b) = take 16 b"
proof -
  have "take 2 (drop 8 b) @ take 6 (drop 10 b) = take 8 (drop 8 b)"
    using take_drop_join[of 2 8 b 6] by simp
  moreover have "take 2 (drop 6 b) @ take 8 (drop 8 b) = take 10 (drop 6 b)"
    using take_drop_join[of 2 6 b 8] by simp
  moreover have "take 2 (drop 4 b) @ take 10 (drop 6 b) = take 12 (drop 4 b)"
    using take_drop_join[of 2 4 b 10] by simp
  moreover have "take 4 b @ take 12 (drop 4 b) = take 16 b"
    using take_drop_join[of 4 0 b 12] by simp
  ultimately show ?thesis
    by simp
qed

lemma array_slices_16:
  assumes "length b = 16"
  shows "array_slice b 0 4 @ array_slice b 4 6 @ array_slice b 6 8 @ array_slice b 8 10
       @ array_slice b 10 16 = b"
  using assms take_drop_16[of b] by (simp add: array_slice_def)

section \<open>The regular expression and the specification's grammar\<close>

lemma lhex_iff: "is_lhex c \<longleftrightarrow> lowercase_hex_digit c"
proof
  assume h: "is_lhex c"
  define n where "n = (of_char c :: nat)"
  from h have "(48 \<le> n \<and> n \<le> 57) \<or> (97 \<le> n \<and> n \<le> 102)"
    by (simp add: is_lhex_def Let_def n_def)
  then have "n \<in> {48,49,50,51,52,53,54,55,56,57,97,98,99,100,101,102}"
    by (simp, arith)
  then have "\<exists>d \<in> set ''0123456789abcdef''. n = of_char d"
    by simp
  then obtain d where d: "d \<in> set ''0123456789abcdef''"
    and "of_char c = (of_char d :: nat)"
    unfolding n_def by blast
  then have "c = d" by simp
  with d show "lowercase_hex_digit c"
    by (simp only: lowercase_hex_digit_def)
next
  assume "lowercase_hex_digit c"
  then show "is_lhex c"
    by (auto simp add: lowercase_hex_digit_def is_lhex_def)
qed

lemma MatchString_HexRun:
  "MatchString (HexRun n # as) s \<longleftrightarrow>
     (\<exists>a b. s = a @ b \<and> length a = n \<and> list_all is_lhex a \<and> MatchString as b)"
proof
  assume "MatchString (HexRun n # as) s"
  then have "s = take n s @ drop n s \<and> length (take n s) = n
      \<and> list_all is_lhex (take n s) \<and> MatchString as (drop n s)"
    by simp
  then show "\<exists>a b. s = a @ b \<and> length a = n \<and> list_all is_lhex a \<and> MatchString as b"
    by blast
next
  assume "\<exists>a b. s = a @ b \<and> length a = n \<and> list_all is_lhex a \<and> MatchString as b"
  then show "MatchString (HexRun n # as) s"
    by auto
qed

lemma MatchString_Lit:
  "MatchString (Lit c # as) s \<longleftrightarrow> (\<exists>b. s = c # b \<and> MatchString as b)"
  by (cases s) auto

lemma MatchString_length: "MatchString uuid_regexp s \<Longrightarrow> length s = 36"
  unfolding uuid_regexp_def MatchString_HexRun MatchString_Lit
  by (auto simp del: MatchString.simps simp add: MatchString.simps(1))

lemma upt_36:
  "[0..<36] = [0, 1, 2, 3, 4, 5, 6, 7, 8, 9, 10, 11, 12, 13, 14, 15, 16, 17, 18, 19, 20,
     21, 22, 23, 24, 25, 26, 27, 28, 29, 30, 31, 32, 33, 34, 35]"
  by code_simp

lemma MatchString_canonical_36:
  assumes "length s = 36"
  shows "MatchString uuid_regexp s \<longleftrightarrow> canonical_text s"
proof -
  from assms have "length s =
      Suc (Suc (Suc (Suc (Suc (Suc (Suc (Suc (Suc (Suc (Suc (Suc
      (Suc (Suc (Suc (Suc (Suc (Suc (Suc (Suc (Suc (Suc (Suc (Suc
      (Suc (Suc (Suc (Suc (Suc (Suc (Suc (Suc (Suc (Suc (Suc (Suc
        0)))))))))))))))))))))))))))))))))))"
    by simp
  then obtain c0 c1 c2 c3 c4 c5 c6 c7 c8 c9 c10 c11 c12 c13 c14 c15 c16 c17 c18 c19 c20
    c21 c22 c23 c24 c25 c26 c27 c28 c29 c30 c31 c32 c33 c34 c35
    where s: "s = [c0, c1, c2, c3, c4, c5, c6, c7, c8, c9, c10, c11, c12, c13, c14, c15,
      c16, c17, c18, c19, c20, c21, c22, c23, c24, c25, c26, c27, c28, c29, c30, c31, c32,
      c33, c34, c35]"
    by (auto simp add: length_Suc_conv)
  show ?thesis
    unfolding s
    by (simp add: uuid_regexp_def canonical_text_def hyphen_positions_def lhex_iff upt_36)
qed

lemma MatchString_canonical: "MatchString uuid_regexp s \<longleftrightarrow> canonical_text s"
proof (cases "length s = 36")
  case True
  then show ?thesis by (rule MatchString_canonical_36)
next
  case False
  then show ?thesis
    using MatchString_length[of s] by (auto simp add: canonical_text_def)
qed

section \<open>The map that SetScopes builds\<close>

lemma tmpMap_Some_iff:
  "fold (\<lambda>index tmpMap. tmpMap(ns ! index \<mapsto> index)) [0..<n] Map.empty k = Some i
   \<longleftrightarrow> i < n \<and> ns ! i = k \<and> (\<forall>j. i < j \<and> j < n \<longrightarrow> ns ! j \<noteq> k)"
proof (induction n arbitrary: i)
  case 0
  then show ?case by simp
next
  case (Suc n)
  show ?case
  proof (cases "ns ! n = k")
    case True
    then show ?thesis
      by (auto simp add: less_Suc_eq)
  next
    case False
    then show ?thesis
      using Suc.IH[of i] by (auto simp add: less_Suc_eq)
  qed
qed

lemma tmpMap_None_iff:
  "fold (\<lambda>index tmpMap. tmpMap(ns ! index \<mapsto> index)) [0..<n] Map.empty k = None
   \<longleftrightarrow> (\<forall>i<n. ns ! i \<noteq> k)"
  by (induction n) (auto simp add: less_Suc_eq)

lemma tmpMap_dom:
  "dom (fold (\<lambda>index tmpMap. tmpMap(ns ! index \<mapsto> index)) [0..<n] Map.empty)
     = (\<lambda>i. ns ! i) ` {..<n}"
proof -
  have "k \<in> dom (fold (\<lambda>index tmpMap. tmpMap(ns ! index \<mapsto> index)) [0..<n] Map.empty)
        \<longleftrightarrow> k \<in> (\<lambda>i. ns ! i) ` {..<n}" for k
    using tmpMap_None_iff[of ns n k] by (auto simp add: domIff)
  then show ?thesis by blast
qed

section \<open>The loop of readScope\<close>

lemma range_found:
  assumes inj: "\<And>k k' p. m k = Some p \<Longrightarrow> m k' = Some p \<Longrightarrow> k = k'"
    and bound: "\<And>k p. m k = Some p \<Longrightarrow> p < 64"
    and s: "m s = Some i"
    and mem: "s \<in> set ks"
  shows "range_setScopes m (scopes ! i) ks u = u\<lparr>scope := s\<rparr>"
  using mem
proof (induction ks)
  case Nil
  then show ?case by simp
next
  case (Cons k ks)
  show ?case
  proof (cases "m k")
    case None
    with s have "k \<noteq> s" by auto
    with Cons None show ?thesis by simp
  next
    case (Some p)
    show ?thesis
    proof (cases "scopes ! i = scopes ! p")
      case True
      have "i < length scopes" "p < length scopes"
        using bound[OF s] bound[OF Some] by (simp_all add: length_scopes)
      with True have "i = p"
        using distinct_scopes by (simp add: nth_eq_iff_index_eq)
      with s Some have "k = s" using inj by blast
      with Some True show ?thesis by simp
    next
      case False
      with s Some have "k \<noteq> s" by auto
      with Cons Some False show ?thesis by simp
    qed
  qed
qed

lemma range_scope_empty:
  assumes inj: "\<And>k k' p. m k = Some p \<Longrightarrow> m k' = Some p \<Longrightarrow> k = k'"
    and bound: "\<And>k p. m k = Some p \<Longrightarrow> p < 64"
    and e: "m '''' = Some i"
    and u: "scope u = ''''"
  shows "scope (range_setScopes m (scopes ! i) ks u) = ''''"
proof (induction ks)
  case Nil
  then show ?case by (simp add: u)
next
  case (Cons k ks)
  show ?case
  proof (cases "m k")
    case None
    with Cons show ?thesis by simp
  next
    case (Some p)
    show ?thesis
    proof (cases "scopes ! i = scopes ! p")
      case True
      have "i < length scopes" "p < length scopes"
        using bound[OF e] bound[OF Some] by (simp_all add: length_scopes)
      with True have "i = p"
        using distinct_scopes by (simp add: nth_eq_iff_index_eq)
      with e Some have "k = ''''" using inj by blast
      with Some True show ?thesis by simp
    next
      case False
      with Cons Some show ?thesis by simp
    qed
  qed
qed

section \<open>A configured registry\<close>

lemma SetScopes_None:
  "SetScopes None ns = (None, Some m) \<longleftrightarrow>
     m = fold (\<lambda>index tmpMap. tmpMap(ns ! index \<mapsto> index)) [0..<64] Map.empty"
  by (auto simp add: SetScopes_def)

lemma SetScopes_Some: "SetScopes (Some m) ns = (Some ErrorScopesAlreadySet, Some m)"
  by (simp add: SetScopes_def)

lemma configured_Some_iff:
  assumes "SetScopes None ns = (None, Some m)"
  shows "m k = Some i \<longleftrightarrow>
    i < 64 \<and> ns ! i = k \<and> (\<forall>j. i < j \<and> j < 64 \<longrightarrow> ns ! j \<noteq> k)"
  using assms tmpMap_Some_iff[of ns 64 k i] by (simp add: SetScopes_None)

lemma configured_inj:
  assumes "SetScopes None ns = (None, Some m)" and "m k = Some p" and "m k' = Some p"
  shows "k = k'"
  using assms by (auto simp add: configured_Some_iff)

lemma configured_bound:
  assumes "SetScopes None ns = (None, Some m)" and "m k = Some p"
  shows "p < 64"
  using assms by (auto simp add: configured_Some_iff)

lemma configured_last:
  assumes "SetScopes None ns = (None, Some m)"
  shows "m (ns ! 63) = Some 63"
  using assms by (auto simp add: configured_Some_iff)

lemma configured_dom:
  assumes "SetScopes None ns = (None, Some m)" and "length ns = 64"
  shows "dom m = set ns"
proof -
  have "dom m = (\<lambda>i. ns ! i) ` {..<64}"
    using assms(1) tmpMap_dom[of ns 64] by (simp add: SetScopes_None)
  also have "\<dots> = set ns"
    using assms(2) by (auto simp add: set_conv_nth)
  finally show ?thesis .
qed

lemma later_calls:
  "foldl (\<lambda>(errs, st) a. (errs @ [fst (SetScopes st a)], snd (SetScopes st a)))
     (errs, Some m) later
   = (errs @ replicate (length later) (Some ErrorScopesAlreadySet), Some m)"
  by (induction later arbitrary: errs)
    (simp_all add: SetScopes_Some replicate_app_Cons_same)

lemma length_distinctScopes: "length distinctScopes = 64"
  by (simp add: distinctScopes_def)

lemma distinct_distinctScopes: "distinct distinctScopes"
  by (simp add: distinctScopes_def)

lemma length_myScopes: "length myScopes = 64"
  by (simp add: myScopes_def)

lemma mySetScopes_Some:
  "\<exists>m. SetScopes None myScopes = (None, Some m) \<and> mySetScopes = Some m"
  by (simp add: mySetScopes_def SetScopes_def)

lemma set_myKeys: "set myKeys = set myScopes"
  by code_simp

section \<open>New and Read on the text of sixteen bytes\<close>

lemma length_array_slice:
  "length b = 16 \<Longrightarrow> length (array_slice b 0 4) = 4 \<and> length (array_slice b 4 6) = 2
     \<and> length (array_slice b 6 8) = 2 \<and> length (array_slice b 8 10) = 2
     \<and> length (array_slice b 10 16) = 6"
  by (simp add: array_slice_def)

lemma MatchString_Sprintf_bin: "length b = 16 \<Longrightarrow> MatchString uuid_regexp (Sprintf_bin b)"
  unfolding Sprintf_bin_def
  using length_array_slice[of b] by (intro MatchString_Sprintf) simp_all

lemma DecodeString_Sprintf_bin:
  "length b = 16 \<Longrightarrow> DecodeString (Replace_hyphens (Sprintf_bin b)) = Inr b"
  by (simp add: Sprintf_bin_def Replace_hyphens_Sprintf array_slices_16 DecodeString_fmt_x)

lemma copy_bytes_full: "length dst = length src \<Longrightarrow> copy_bytes dst src = src"
  by (simp add: copy_bytes_def)

lemma readScope_Sprintf_bin:
  assumes "length b = 16" and "length (bin u) = 16"
  shows "readScope (Some m) ks (u\<lparr>hex := Sprintf_bin b\<rparr>) =
     (let u2 = range_setScopes m ((b ! 0) AND NOT 0x03) ks
                 (u\<lparr>hex := Sprintf_bin b, bin := b\<rparr>)
      in if scope u2 = '''' then (Some ErrorBadScope, u2) else (None, u2))"
  using assms
  by (simp add: readScope_def DecodeString_Sprintf_bin copy_bytes_full Let_def)

lemma Read_Sprintf_bin:
  assumes "length b = 16"
  shows "Read (Some m) ks (Sprintf_bin b) =
     (let u2 = range_setScopes m ((b ! 0) AND NOT 0x03) ks
                 \<lparr>scope = '''', hex = Sprintf_bin b, bin = b\<rparr>
      in if scope u2 = '''' then Inl ErrorBadScope else Inr u2)"
proof -
  have z: "length (bin zero_UUID) = 16"
    by (simp add: zero_UUID_def)
  have u: "zero_UUID\<lparr>hex := Sprintf_bin b, bin := b\<rparr>
             = \<lparr>scope = '''', hex = Sprintf_bin b, bin = b\<rparr>"
    by (simp add: zero_UUID_def)
  show ?thesis
    unfolding Read_def readScope_Sprintf_bin[OF assms z] u
    using MatchString_Sprintf_bin[OF assms] by (simp add: Let_def)
qed

lemma New_registered:
  assumes "map_index setScopes s = Some p"
  shows "New setScopes s (Inr rnd) r =
     Inr \<lparr>scope = s, hex = Sprintf_bin (rnd[0 := (scopes ! p) OR of_nat r]),
          bin = rnd[0 := (scopes ! p) OR of_nat r]\<rparr>"
  using assms by (simp add: New_def Let_def)

lemma first_byte_tag:
  assumes "p < 64" and "r < 4" and "length rnd = 16"
  shows "((rnd[0 := (scopes ! p) OR of_nat r]) ! 0) AND NOT 0x03 = scopes ! p"
proof -
  have "scopes ! p \<in> set scopes"
    using assms(1) by (simp add: length_scopes)
  then have "scopes ! p AND 0x03 = 0"
    by (rule scopes_low_bits)
  then have "((scopes ! p) OR of_nat r) AND NOT 0x03 = scopes ! p"
    using assms(2) by (rule tag_or_and)
  then show ?thesis
    using assms(3) by simp
qed

lemma New_first_byte:
  assumes conf: "SetScopes None newScopes = (None, Some m)"
    and p: "m s = Some i"
    and rnd: "length rnd = 16" and r: "r < 4"
  shows "\<exists>u. New (Some m) s (Inr rnd) r = Inr u \<and> (Bin (Some u) ! 0) AND 0xFC = scopes ! i"
proof -
  have "i < 64"
    using conf p by (rule configured_bound)
  then have "((rnd[0 := (scopes ! i) OR of_nat r]) ! 0) AND NOT 0x03 = scopes ! i"
    using r rnd by (rule first_byte_tag)
  then have "((rnd[0 := (scopes ! i) OR of_nat r]) ! 0) AND 0xFC = scopes ! i"
    by (simp only: not3)
  moreover have "map_index (Some m) s = Some i"
    using p by (simp add: map_index_def)
  ultimately show ?thesis
    by (simp add: New_registered Bin_def)
qed

section \<open>Decoding a text that matches the regular expression\<close>

lemma fromHexChar_lhex: "is_lhex c \<Longrightarrow> \<exists>a. fromHexChar c = Some a"
  by (auto simp add: is_lhex_def fromHexChar_def Let_def)

lemma DecodeString_lhex:
  "list_all is_lhex s \<Longrightarrow> even (length s) \<Longrightarrow> \<exists>bs. DecodeString s = Inr bs"
proof (induction s rule: DecodeString.induct)
  case 1
  then show ?case by simp
next
  case (2 p)
  then show ?case by simp
next
  case (3 p q rest)
  from "3.prems" obtain a b where ab: "fromHexChar p = Some a" "fromHexChar q = Some b"
    using fromHexChar_lhex by fastforce
  from "3.prems" have "list_all is_lhex rest" "even (length rest)"
    by simp_all
  with "3.IH"[OF ab] obtain bs where "DecodeString rest = Inr bs"
    by blast
  with ab show ?case by simp
qed

lemma is_lhex_not_hyphen: "is_lhex c \<Longrightarrow> c \<noteq> CHR ''-''"
  by (auto simp add: is_lhex_def)

lemma Replace_hyphens_lhex: "list_all is_lhex s \<Longrightarrow> Replace_hyphens s = s"
  by (induction s) (auto simp add: Replace_hyphens_def is_lhex_not_hyphen)

lemma DecodeString_canonical:
  assumes "MatchString uuid_regexp input"
  shows "\<exists>bs. DecodeString (Replace_hyphens input) = Inr bs"
proof -
  from assms obtain a b c d e where
    input: "input = a @ CHR ''-'' # b @ CHR ''-'' # c @ CHR ''-'' # d @ CHR ''-'' # e"
    and l: "length a = 8" "length b = 4" "length c = 4" "length d = 4" "length e = 12"
    and h: "list_all is_lhex a" "list_all is_lhex b" "list_all is_lhex c"
      "list_all is_lhex d" "list_all is_lhex e"
    unfolding uuid_regexp_def MatchString_HexRun MatchString_Lit
    by (auto simp del: MatchString.simps simp add: MatchString.simps(1))
  have "Replace_hyphens input = a @ b @ c @ d @ e"
    using h
    by (simp add: input Replace_hyphens_append Replace_hyphens_hyphen Replace_hyphens_lhex)
  moreover have "list_all is_lhex (a @ b @ c @ d @ e)" "even (length (a @ b @ c @ d @ e))"
    using h l by simp_all
  ultimately show ?thesis
    using DecodeString_lhex by simp
qed

section \<open>ScopeMatches and Scan\<close>

lemma ScopeMatches_Some: "ScopeMatches (Some u) cs = Inr (scope u \<in> set cs)"
  by (induction cs) auto

lemma Scan_short_cap:
  "cap s < 16 \<Longrightarrow> Scan setScopes ks uuid (ByteSlice s) = Inl SliceBoundsOutOfRange"
  by (simp add: Scan_def and_then_def slice_expr_def split: sum.splits)

lemma Scan_full_cap:
  "16 \<le> cap s \<Longrightarrow> \<exists>r. Scan setScopes ks (Some u) (ByteSlice s) = Inr r"
  by (simp add: Scan_def and_then_def slice_expr_def split: prod.splits)

section \<open>Round trip\<close>

text \<open>
  C1, as amended.  Let the registry be configured by \<^verbatim>\<open>SetScopes\<close> and let \<open>s\<close> be a
  registered scope that is not the empty string.  For the 16 random bytes \<open>rnd\<close> and
  the two random bits \<open>r\<close>, \<^verbatim>\<open>New(s)\<close> returns an identifier \<open>u\<close>, and
  \<^verbatim>\<open>Read(u.Hex())\<close> returns an identifier whose \<^verbatim>\<open>Scope()\<close> is \<open>s\<close> and whose
  \<^verbatim>\<open>Bin()\<close> and \<^verbatim>\<open>Hex()\<close> are those of \<open>u\<close>, in whatever order \<open>ks\<close> the runtime
  yields the keys of the map.
\<close>

theorem roundtrip_nonempty_scope:
  assumes len: "length newScopes = 64"
    and conf: "SetScopes None newScopes = (None, Some m)"
    and reg: "m s \<noteq> None"
    and nonempty: "s \<noteq> ''''"
    and keys: "set ks = dom m"
    and rnd: "length rnd = 16" and r: "r < 4"
  shows "\<exists>u u'. New (Some m) s (Inr rnd) r = Inr u
           \<and> Read (Some m) ks (Hex (Some u)) = Inr u'
           \<and> Scope (Some u') = s
           \<and> Bin (Some u') = Bin (Some u)
           \<and> Hex (Some u') = Hex (Some u)
           \<and> u' = u"
proof -
  from reg obtain p where p: "m s = Some p" by blast
  define b where "b = rnd[0 := (scopes ! p) OR of_nat r]"
  define u where "u = \<lparr>scope = s, hex = Sprintf_bin b, bin = b\<rparr>"
  have new: "New (Some m) s (Inr rnd) r = Inr u"
    using p by (simp add: New_registered map_index_def u_def b_def)
  have lb: "length b = 16"
    using rnd by (simp add: b_def)
  have "p < 64"
    using conf p by (rule configured_bound)
  then have tag: "(b ! 0) AND NOT 0x03 = scopes ! p"
    unfolding b_def using r rnd by (rule first_byte_tag)
  have "s \<in> set ks"
    using keys p by blast
  then have found:
    "range_setScopes m (scopes ! p) ks \<lparr>scope = '''', hex = Sprintf_bin b, bin = b\<rparr>
      = \<lparr>scope = '''', hex = Sprintf_bin b, bin = b\<rparr>\<lparr>scope := s\<rparr>"
    using configured_inj[OF conf] configured_bound[OF conf] p
    by (intro range_found) blast+
  have "Read (Some m) ks (Sprintf_bin b) = Inr u"
    unfolding Read_Sprintf_bin[OF lb] tag found
    using nonempty by (simp add: u_def)
  then have "Read (Some m) ks (Hex (Some u)) = Inr u"
    by (simp add: Hex_def u_def)
  with new show ?thesis
    by (simp add: Scope_def u_def)
qed

theorem roundtrip_nonempty_scope_witness:
  "\<exists>u u'. New mySetScopes ''five'' (Inr myRandom) 2 = Inr u
           \<and> Read mySetScopes myKeys (Hex (Some u)) = Inr u'
           \<and> Scope (Some u') = ''five''
           \<and> Bin (Some u') = Bin (Some u)
           \<and> Hex (Some u') = Hex (Some u)
           \<and> u' = u"
proof -
  obtain m where conf: "SetScopes None myScopes = (None, Some m)"
    and m: "mySetScopes = Some m"
    using mySetScopes_Some by blast
  have "map_index mySetScopes ''five'' = Some 4"
    by code_simp
  then have reg: "m ''five'' \<noteq> None"
    by (simp add: m map_index_def)
  have keys: "set myKeys = dom m"
    using configured_dom[OF conf length_myScopes] set_myKeys by simp
  have ne: "''five'' \<noteq> ''''" by simp
  have rnd: "length myRandom = 16" by (simp add: myRandom_def)
  have r: "(2::nat) < 4" by simp
  show ?thesis
    unfolding m
    by (rule roundtrip_nonempty_scope[OF length_myScopes conf reg ne keys rnd r])
qed

text \<open>
  The claim as written, for every registered scope, fails for the empty string: the
  array of the test binds it to \<^verbatim>\<open>&scopes[63]\<close>, \<^verbatim>\<open>New("")\<close> returns an identifier,
  and \<^verbatim>\<open>Read\<close> of its text fails.
\<close>

theorem roundtrip_empty_scope_counterexample:
  "map_index mySetScopes '''' = Some 63
   \<and> New mySetScopes '''' (Inr myRandom) 3 =
        Inr \<lparr>scope = '''', hex = ''ff8cb1d0-84f3-9d8d-76cc-682d1ca34dae'', bin = myRandom\<rparr>
   \<and> Read mySetScopes myKeys
        (Hex (Some \<lparr>scope = '''', hex = ''ff8cb1d0-84f3-9d8d-76cc-682d1ca34dae'',
                    bin = myRandom\<rparr>))
      = Inl ErrorBadScope"
  by code_simp

section \<open>Tag invariant\<close>

text \<open>
  C2.  Let the registry be configured by \<^verbatim>\<open>SetScopes(newScopes)\<close> and let it bind the
  scope \<open>s\<close> to \<^verbatim>\<open>&scopes[i]\<close>.  Then \<^verbatim>\<open>New(s)\<close> returns an identifier whose first byte,
  masked with \<^verbatim>\<open>0xFC\<close>, is \<^verbatim>\<open>scopes[i]\<close>: the entry of the table at an index \<open>i\<close> below
  64 at which \<open>newScopes\<close> holds \<open>s\<close>, and one of the 64 constants of the table.
\<close>

theorem New_tag_invariant:
  assumes len: "length newScopes = 64"
    and conf: "SetScopes None newScopes = (None, setScopes)"
    and reg: "map_index setScopes s = Some i"
    and rnd: "length rnd = 16" and r: "r < 4"
  shows "\<exists>u. New setScopes s (Inr rnd) r = Inr u
           \<and> (Bin (Some u) ! 0) AND 0xFC = scopes ! i
           \<and> scopes ! i \<in> set scopes
           \<and> i < 64 \<and> newScopes ! i = s"
proof -
  from reg obtain m where m: "setScopes = Some m" and p: "m s = Some i"
    by (cases setScopes) (simp_all add: map_index_def)
  have conf': "SetScopes None newScopes = (None, Some m)"
    using conf m by simp
  have i: "i < 64" and s: "newScopes ! i = s"
    using p by (simp_all add: configured_Some_iff[OF conf'])
  have "scopes ! i \<in> set scopes"
    using i by (simp add: length_scopes)
  with New_first_byte[OF conf' p rnd r] i s show ?thesis
    by (simp add: m)
qed

theorem New_tag_invariant_witness:
  "\<exists>u. New mySetScopes ''five'' (Inr myRandom) 2 = Inr u
        \<and> (Bin (Some u) ! 0) AND 0xFC = 0x10
        \<and> scopes ! 4 = 0x10
        \<and> myScopes ! 4 = ''five''"
proof -
  have conf: "SetScopes None myScopes = (None, mySetScopes)"
    by (simp add: mySetScopes_def SetScopes_def)
  have reg: "map_index mySetScopes ''five'' = Some 4"
    by code_simp
  have rnd: "length myRandom = 16" by (simp add: myRandom_def)
  have r: "(2::nat) < 4" by simp
  have t: "scopes ! 4 = 0x10" by (simp add: scopes_def)
  show ?thesis
    using New_tag_invariant[OF length_myScopes conf reg rnd r] by (auto simp add: t)
qed

section \<open>Read on an unconfigured registry\<close>

text \<open>
  C3.  The claim asks for the error \<^verbatim>\<open>ErrorMissingScope\<close> when \<^verbatim>\<open>Read\<close> gets a text
  that matches the regular expression while \<^verbatim>\<open>SetScopes\<close> has never been called.
  \<^verbatim>\<open>readScope\<close> does return that error then, but \<^verbatim>\<open>Read\<close> replaces every error of
  \<^verbatim>\<open>readScope\<close> by \<^verbatim>\<open>ErrorBadScope\<close>, which is another message.
\<close>

theorem Read_unconfigured_BadScope:
  "MatchString uuid_regexp input \<Longrightarrow>
     fst (readScope None ks (zero_UUID\<lparr>hex := input\<rparr>)) = Some ErrorMissingScope
     \<and> Read None ks input = Inl ErrorBadScope
     \<and> ErrorBadScope \<noteq> ErrorMissingScope"
proof -
  assume m: "MatchString uuid_regexp input"
  then obtain bs where "DecodeString (Replace_hyphens input) = Inr bs"
    using DecodeString_canonical by blast
  then have "fst (readScope None ks (zero_UUID\<lparr>hex := input\<rparr>)) = Some ErrorMissingScope"
    by (simp add: readScope_def Let_def)
  moreover have "Read None ks input = Inl ErrorBadScope"
    using m by (simp add: Read_def readScope_def Let_def split: sum.splits)
  moreover have "ErrorBadScope \<noteq> ErrorMissingScope"
    by (simp add: ErrorBadScope_def ErrorMissingScope_def)
  ultimately show ?thesis by simp
qed

theorem Read_unconfigured_BadScope_witness:
  "MatchString uuid_regexp ''ff8cb1d0-84f3-9d8d-76cc-682d1ca34dae''
   \<and> fst (readScope None [] (zero_UUID\<lparr>hex := ''ff8cb1d0-84f3-9d8d-76cc-682d1ca34dae''\<rparr>))
       = Some ErrorMissingScope
   \<and> Read None [] ''ff8cb1d0-84f3-9d8d-76cc-682d1ca34dae'' = Inl ErrorBadScope
   \<and> ErrorBadScope \<noteq> ErrorMissingScope"
proof -
  have m: "MatchString uuid_regexp ''ff8cb1d0-84f3-9d8d-76cc-682d1ca34dae''"
    by code_simp
  show ?thesis
    using m Read_unconfigured_BadScope[OF m, of "[]"] by simp
qed

section \<open>Set once\<close>

text \<open>
  C4.  On the nil map, \<^verbatim>\<open>SetScopes\<close> with an array of 64 distinct names returns no
  error and binds the name at every index \<open>i\<close> to \<^verbatim>\<open>&scopes[i]\<close>.  Every later call,
  with any array, returns \<^verbatim>\<open>ErrorScopesAlreadySet\<close> and leaves the map as it is; so
  does every sequence of later calls.
\<close>

theorem SetScopes_set_once:
  assumes "length newScopes = 64" and "distinct newScopes"
  shows "\<exists>m. SetScopes None newScopes = (None, Some m)
           \<and> (\<forall>i<64. m (newScopes ! i) = Some i)
           \<and> (\<forall>later. SetScopes (Some m) later = (Some ErrorScopesAlreadySet, Some m))
           \<and> (\<forall>calls.
                foldl (\<lambda>(errs, st) a. (errs @ [fst (SetScopes st a)], snd (SetScopes st a)))
                  ([], Some m) calls
                = (replicate (length calls) (Some ErrorScopesAlreadySet), Some m))"
proof -
  obtain m where m: "SetScopes None newScopes = (None, Some m)"
    by (simp add: SetScopes_def)
  have "m (newScopes ! i) = Some i" if "i < 64" for i
    using that assms by (auto simp add: configured_Some_iff[OF m] nth_eq_iff_index_eq)
  with m show ?thesis
    using later_calls[of "[]" m] by (auto simp add: SetScopes_Some)
qed

theorem SetScopes_set_once_witness:
  "\<exists>m. SetScopes None distinctScopes = (None, Some m)
        \<and> m ''five'' = Some 4
        \<and> SetScopes (Some m) myScopes = (Some ErrorScopesAlreadySet, Some m)
        \<and> foldl (\<lambda>(errs, st) a. (errs @ [fst (SetScopes st a)], snd (SetScopes st a)))
                  ([], Some m) [myScopes, distinctScopes]
            = ([Some ErrorScopesAlreadySet, Some ErrorScopesAlreadySet], Some m)"
proof -
  have five: "distinctScopes ! 4 = ''five''"
    by (simp add: distinctScopes_def)
  obtain m where m: "SetScopes None distinctScopes = (None, Some m)"
    and i: "\<forall>i<64. m (distinctScopes ! i) = Some i"
    and l: "\<forall>later. SetScopes (Some m) later = (Some ErrorScopesAlreadySet, Some m)"
    and c: "\<forall>calls.
                foldl (\<lambda>(errs, st) a. (errs @ [fst (SetScopes st a)], snd (SetScopes st a)))
                  ([], Some m) calls
                = (replicate (length calls) (Some ErrorScopesAlreadySet), Some m)"
    using SetScopes_set_once[OF length_distinctScopes distinct_distinctScopes] by blast
  from five have "m ''five'' = Some 4"
    using i[rule_format, of 4] by simp
  with m l c[rule_format, of "[myScopes, distinctScopes]"] show ?thesis
    by (intro exI[of _ m]) (simp add: numeral_2_eq_2)
qed

section \<open>Grammar rejection\<close>

text \<open>
  C5.  A text that is not canonical in the specification's words (36 characters,
  hyphens at 8, 13, 18 and 23, lowercase hexadecimal digits elsewhere) does not match
  the regular expression of \<^verbatim>\<open>Read\<close>, and \<^verbatim>\<open>Read\<close> returns \<^verbatim>\<open>ErrorBadString\<close> and no
  identifier, whatever the registry holds.
\<close>

theorem Read_rejects_noncanonical:
  "\<not> canonical_text input \<Longrightarrow> Read setScopes ks input = Inl ErrorBadString"
  by (simp add: Read_def MatchString_canonical)

theorem Read_rejects_noncanonical_witness:
  "Read mySetScopes myKeys ''f'' = Inl ErrorBadString
   \<and> Read mySetScopes myKeys ''128CB1D0-84F3-9D8D-76CC-682D1CA34DAE'' = Inl ErrorBadString
   \<and> Read mySetScopes myKeys ''128cb1d084f3-9d8d-76cc-682d-1ca34dae'' = Inl ErrorBadString
   \<and> Read mySetScopes myKeys '' 128cb1d0-84f3-9d8d-76cc-682d1ca34dae'' = Inl ErrorBadString
   \<and> Read mySetScopes myKeys (''128cb1d0-84f3-9d8d-76cc-682d1ca34dae'' @ [CHR 0x0A])
       = Inl ErrorBadString"
proof -
  have "\<not> canonical_text ''f''"
    by (simp add: canonical_text_def)
  moreover have "\<not> canonical_text ''128CB1D0-84F3-9D8D-76CC-682D1CA34DAE''"
    by code_simp
  moreover have "\<not> canonical_text ''128cb1d084f3-9d8d-76cc-682d-1ca34dae''"
    by code_simp
  moreover have "\<not> canonical_text '' 128cb1d0-84f3-9d8d-76cc-682d1ca34dae''"
    by (simp add: canonical_text_def)
  moreover have "\<not> canonical_text (''128cb1d0-84f3-9d8d-76cc-682d1ca34dae'' @ [CHR 0x0A])"
    by (simp add: canonical_text_def)
  ultimately show ?thesis
    by (simp only: Read_rejects_noncanonical simp_thms)
qed

section \<open>Scope membership\<close>

text \<open>
  C6.  The claim asks \<^verbatim>\<open>ScopeMatches\<close> to return false, without a fault, on the nil
  pointer.  On the nil pointer and a list that is not empty the loop body reads
  \<^verbatim>\<open>uuid.scope\<close> and faults.  On the empty list the result is false, and on a pointer
  that is not nil it is the membership of the scope in the list.
\<close>

theorem ScopeMatches_nil_receiver:
  "ScopeMatches None (c # cs) = Inl NilDereference
   \<and> ScopeMatches None [] = Inr False
   \<and> ScopeMatches (Some u) cs = Inr (scope u \<in> set cs)"
  by (simp add: ScopeMatches_Some)

section \<open>Accessors on the nil pointer\<close>

text \<open>
  C7.  On the nil pointer \<^verbatim>\<open>Scope()\<close> returns the empty string, \<^verbatim>\<open>Hex()\<close> returns the
  empty string and \<^verbatim>\<open>Bin()\<close> returns the array of 16 zero bytes; none of them can
  fault.
\<close>

theorem accessors_on_nil:
  "Scope None = '''' \<and> Hex None = '''' \<and> Bin None = replicate 16 0"
  by (simp add: Scope_def Hex_def Bin_def)

section \<open>Two callers racing to configure\<close>

text \<open>
  C8.  The claim asks that of two callers racing in \<^verbatim>\<open>SetScopes\<close> exactly one succeeds
  and the other gets \<^verbatim>\<open>ErrorScopesAlreadySet\<close>.  A call that takes its two steps with
  no step of the other in between does what \<^verbatim>\<open>SetScopes\<close> does, and two calls one
  after the other behave as claimed.  When both goroutines read the nil global before
  either writes it, both calls return nil, and the global ends as the map of the
  second writer.
\<close>

theorem SetScopes_race_both_succeed:
  "run_schedule [GoA, GoA] (setScopes, AtCheck a, c)
     = (snd (SetScopes setScopes a), Returned (fst (SetScopes setScopes a)), c)
   \<and> run_schedule [GoA, GoA, GoB, GoB] (None, AtCheck a, AtCheck b)
     = (snd (SetScopes None a), Returned None, Returned (Some ErrorScopesAlreadySet))
   \<and> run_schedule [GoA, GoB, GoA, GoB] (None, AtCheck a, AtCheck b)
     = (snd (SetScopes None b), Returned None, Returned None)"
  by (simp add: SetScopes_step_def SetScopes_def Let_def split: option.splits)

section \<open>Scan on short input\<close>

text \<open>
  C9, as amended.  \<^verbatim>\<open>Scan\<close> on a byte slice whose capacity is below 16 faults at a
  slice expression, whatever the receiver; on a receiver that is not nil it returns
  exactly when the capacity of the slice is at least 16.
\<close>

theorem Scan_faults_iff_capacity:
  "(cap s < 16 \<longrightarrow> Scan setScopes ks uuid (ByteSlice s) = Inl SliceBoundsOutOfRange)
   \<and> ((\<exists>r. Scan setScopes ks (Some u) (ByteSlice s) = Inr r) \<longleftrightarrow> 16 \<le> cap s)"
  using Scan_short_cap[of s setScopes ks] Scan_full_cap[of s setScopes ks u]
  by (cases "cap s < 16") auto

theorem Scan_faults_iff_capacity_witness:
  "cap \<lparr>backing = [0x12, 0x8c, 0xb1], len = 3\<rparr> < 16
   \<and> Scan mySetScopes myKeys (Some zero_UUID)
        (ByteSlice \<lparr>backing = [0x12, 0x8c, 0xb1], len = 3\<rparr>)
       = Inl SliceBoundsOutOfRange
   \<and> 16 \<le> cap \<lparr>backing = myRandom, len = 16\<rparr>
   \<and> (\<exists>r. Scan mySetScopes myKeys (Some zero_UUID)
              (ByteSlice \<lparr>backing = myRandom, len = 16\<rparr>)
            = Inr r)"
proof -
  have a: "cap \<lparr>backing = [0x12, 0x8c, 0xb1], len = 3\<rparr> < 16"
    by (simp add: cap_def)
  have b: "16 \<le> cap \<lparr>backing = myRandom, len = 16\<rparr>"
    by (simp add: cap_def myRandom_def)
  show ?thesis
    using a b
      Scan_faults_iff_capacity[of "\<lparr>backing = [0x12, 0x8c, 0xb1], len = 3\<rparr>"
        mySetScopes myKeys "Some zero_UUID" zero_UUID]
      Scan_faults_iff_capacity[of "\<lparr>backing = myRandom, len = 16\<rparr>"
        mySetScopes myKeys "Some zero_UUID" zero_UUID]
    by blast
qed

text \<open>
  The claim as written, for every byte slice shorter than 16 bytes, fails for a slice
  of 3 bytes in an array of 16: the slice expressions reach into the capacity and
  \<^verbatim>\<open>Scan\<close> returns the error of \<^verbatim>\<open>readScope\<close>.
\<close>

theorem Scan_short_slice_counterexample:
  "len \<lparr>backing = replicate 16 0, len = 3\<rparr> < 16
   \<and> Scan None [] (Some zero_UUID) (ByteSlice \<lparr>backing = replicate 16 0, len = 3\<rparr>)
      = Inr (Some ErrorMissingScope,
             Some \<lparr>scope = '''', hex = ''00000000-0000-0000-0000-000000000000'',
                    bin = replicate 16 0\<rparr>)"
  by code_simp

section \<open>Names that occur more than once\<close>

text \<open>
  C10.  After \<^verbatim>\<open>SetScopes(newScopes)\<close> a name is bound to \<^verbatim>\<open>&scopes[i]\<close> for the last
  index \<open>i\<close> at which the array holds it.  When the last element of the array is the
  empty string, the empty string is bound to \<^verbatim>\<open>&scopes[63]\<close>, which is \<^verbatim>\<open>0xFC\<close>, and
  \<^verbatim>\<open>New("")\<close> returns an identifier with that tag.  \<^verbatim>\<open>Read\<close> of the text of any 16
  bytes that carry the tag of the empty string returns \<^verbatim>\<open>ErrorBadScope\<close>.
\<close>

theorem duplicate_names_bind_last_index:
  assumes len: "length newScopes = 64"
    and conf: "SetScopes None newScopes = (None, Some m)"
  shows "(\<forall>i<64. (\<forall>j. i < j \<and> j < 64 \<longrightarrow> newScopes ! j \<noteq> newScopes ! i)
            \<longrightarrow> m (newScopes ! i) = Some i)
     \<and> (newScopes ! 63 = '''' \<longrightarrow>
          m '''' = Some 63 \<and> scopes ! 63 = 0xFC
          \<and> (\<forall>rnd r. length rnd = 16 \<and> r < 4 \<longrightarrow>
                (\<exists>u. New (Some m) '''' (Inr rnd) r = Inr u
                     \<and> (Bin (Some u) ! 0) AND 0xFC = 0xFC)))
     \<and> (\<forall>i b ks. m '''' = Some i \<and> length b = 16 \<and> (b ! 0) AND 0xFC = scopes ! i
            \<longrightarrow> Read (Some m) ks (Sprintf_bin b) = Inl ErrorBadScope)"
proof (intro conjI allI impI)
  fix i
  assume "i < 64" and "\<forall>j. i < j \<and> j < 64 \<longrightarrow> newScopes ! j \<noteq> newScopes ! i"
  then show "m (newScopes ! i) = Some i"
    by (simp add: configured_Some_iff[OF conf])
next
  assume e: "newScopes ! 63 = ''''"
  then show "m '''' = Some 63"
    using configured_last[OF conf] by simp
next
  show "scopes ! 63 = 0xFC"
    by (simp add: scopes_def)
next
  fix rnd :: "byte list" and r :: nat
  assume e: "newScopes ! 63 = ''''" and rr: "length rnd = 16 \<and> r < 4"
  have p: "m '''' = Some 63"
    using e configured_last[OF conf] by simp
  have "scopes ! 63 = 0xFC"
    by (simp add: scopes_def)
  then show "\<exists>u. New (Some m) '''' (Inr rnd) r = Inr u \<and> (Bin (Some u) ! 0) AND 0xFC = 0xFC"
    using New_first_byte[OF conf p] rr by auto
next
  fix i b ks
  assume a: "m '''' = Some i \<and> length b = 16 \<and> (b ! 0) AND 0xFC = scopes ! i"
  then have tag: "(b ! 0) AND NOT 0x03 = scopes ! i"
    by (simp only: not3)
  from a have lb: "length b = 16"
    by simp
  have "scope (range_setScopes m (scopes ! i) ks
                \<lparr>scope = '''', hex = Sprintf_bin b, bin = b\<rparr>) = ''''"
    using configured_inj[OF conf] configured_bound[OF conf] a
    by (intro range_scope_empty) auto
  then show "Read (Some m) ks (Sprintf_bin b) = Inl ErrorBadScope"
    unfolding Read_Sprintf_bin[OF lb] tag by (simp add: Let_def)
qed

theorem duplicate_names_bind_last_index_witness:
  "map_index mySetScopes '''' = Some 63
   \<and> map_index mySetScopes ''eight'' = Some 7
   \<and> (\<exists>u. New mySetScopes '''' (Inr myRandom) 3 = Inr u \<and> (Bin (Some u) ! 0) AND 0xFC = 0xFC)
   \<and> Read mySetScopes myKeys (Sprintf_bin myRandom) = Inl ErrorBadScope"
proof -
  obtain m where conf: "SetScopes None myScopes = (None, Some m)"
    and m: "mySetScopes = Some m"
    using mySetScopes_Some by blast
  note t = duplicate_names_bind_last_index[OF length_myScopes conf]
  have last: "myScopes ! 63 = ''''"
    by code_simp
  have eight: "myScopes ! 7 = ''eight''"
    by (simp add: myScopes_def)
  have later: "myScopes ! j \<noteq> ''eight''" if "7 < j \<and> j < 64" for j
  proof -
    from that have "j - 8 < 56" by arith
    with that show ?thesis by (simp add: myScopes_def nth_append)
  qed
  have rnd: "length myRandom = 16 \<and> (3::nat) < 4"
    by (simp add: myRandom_def)
  have tag: "(myRandom ! 0) AND 0xFC = scopes ! 63"
    by code_simp
  have 1: "m '''' = Some 63"
    using t last by blast
  have 2: "m ''eight'' = Some 7"
    using t[THEN conjunct1, rule_format, of 7] eight later by simp
  have 3: "\<exists>u. New (Some m) '''' (Inr myRandom) 3 = Inr u \<and> (Bin (Some u) ! 0) AND 0xFC = 0xFC"
    using t last rnd by blast
  have 4: "Read (Some m) myKeys (Sprintf_bin myRandom) = Inl ErrorBadScope"
    using t 1 rnd tag by blast
  from 1 2 3 4 show ?thesis
    by (simp add: m map_index_def)
qed

end
